theory Spec2Isabelle
  imports Complex_Main
begin

section \<open>Values and errors\<close>

text \<open>
  The program is \<^verbatim>\<open>tax_cal.py\<close>. Its floats are modelled as exact real numbers (no
  rounding); the only non-finite float the calculator itself creates is
  \<^verbatim>\<open>float("inf")\<close>, the upper bound of an unbounded bracket, so a bound is a finite
  real or \<open>PosInf\<close>. Every exception the modelled code can raise is a value of \<open>py_error\<close>.
\<close>

datatype py_error = IndexError | TypeError | ValueError | AttributeError

datatype bound = Fin real | PosInf

text \<open>The order of floats restricted to finite values and positive infinity.\<close>

instantiation bound :: linorder
begin

fun less_eq_bound :: "bound \<Rightarrow> bound \<Rightarrow> bool" where
  "less_eq_bound (Fin a) (Fin b) = (a \<le> b)"
| "less_eq_bound (Fin a) PosInf = True"
| "less_eq_bound PosInf (Fin b) = False"
| "less_eq_bound PosInf PosInf = True"

definition less_bound :: "bound \<Rightarrow> bound \<Rightarrow> bool" where
  "less_bound x y = (x \<le> y \<and> \<not> y \<le> x)"

instance
proof
  fix x y z :: bound
  show "(x < y) = (x \<le> y \<and> \<not> y \<le> x)"
    by (simp add: less_bound_def)
  show "x \<le> x"
    by (cases x) simp_all
  show "x \<le> y \<Longrightarrow> y \<le> z \<Longrightarrow> x \<le> z"
    by (cases x; cases y; cases z) simp_all
  show "x \<le> y \<Longrightarrow> y \<le> x \<Longrightarrow> x = y"
    by (cases x; cases y) simp_all
  show "x \<le> y \<or> y \<le> x"
    by (cases x; cases y) auto
qed

end

section \<open>Data model\<close>

text \<open>
  \<^verbatim>\<open>@dataclass class Bracket: up_to: Optional[float]; rate: float\<close>.
  A dataclass does not enforce its annotations, so the type of \<open>up_to\<close> is a parameter:
  the calculator receives brackets with \<open>up_to :: real option\<close> (\<open>None\<close> means
  infinity) and builds brackets with \<open>up_to :: bound\<close> for its sorted copy;
  \<^verbatim>\<open>from_json\<close> stores whatever value it finds in the record; a Bracket object on the
  heap holds \<^verbatim>\<open>None\<close> or a float.
\<close>

record 'u Bracket =
  up_to :: 'u
  rate :: real

section \<open>The calculators\<close>


text \<open>
  The list comprehension of \<^verbatim>\<open>compute_tax_progressive\<close>:
  \<^verbatim>\<open>Bracket(float("inf") if b.up_to is None else float(b.up_to), float(b.rate))\<close>.
\<close>

definition clean :: "real option Bracket \<Rightarrow> bound Bracket" where
  "clean b = \<lparr>up_to = (case up_to b of None \<Rightarrow> PosInf | Some u \<Rightarrow> Fin u), rate = rate b\<rparr>"

text \<open>
  \<^verbatim>\<open>span = max(0.0, min(remaining, upper_bound - lower_bound))\<close> on floats.
  Python's \<^verbatim>\<open>min(a, b)\<close> is \<open>b\<close> when \<open>b < a\<close> and \<open>a\<close> otherwise, and
  \<^verbatim>\<open>max(a, b)\<close> is \<open>b\<close> when \<open>b > a\<close>. With a finite \<open>remaining\<close>:
  \<^item> \<open>inf - l = inf\<close>, and \<open>min(remaining, inf) = remaining\<close>;
  \<^item> \<open>u - inf = -inf\<close>, \<open>min(remaining, -inf) = -inf\<close>, \<open>max(0.0, -inf) = 0.0\<close>;
  \<^item> \<open>inf - inf = nan\<close>, \<open>nan < remaining\<close> is false, so \<open>min(remaining, nan) = remaining\<close>.
\<close>

fun span_of :: "real \<Rightarrow> bound \<Rightarrow> bound \<Rightarrow> real" where
  "span_of remaining (Fin u) (Fin l) = max 0 (min remaining (u - l))"
| "span_of remaining PosInf (Fin l) = max 0 remaining"
| "span_of remaining (Fin u) PosInf = 0"
| "span_of remaining PosInf PosInf = max 0 remaining"

text \<open>The local variables of the loop.\<close>

record walk_state =
  remaining :: real
  lower_bound :: bound
  total_tax :: real
  marginal_rate :: real

text \<open>
  One pass of the body of \<^verbatim>\<open>for b in cleaned\<close>, up to the test of the \<^verbatim>\<open>break\<close>:
  \<^verbatim>\<open>upper_bound = b.up_to
  span = max(0.0, min(remaining, upper_bound - lower_bound))
  if span > 0:
      total_tax += span * (b.rate / 100.0)
      remaining -= span
      marginal_rate = b.rate
  lower_bound = upper_bound\<close>
\<close>

definition walk_step :: "bound Bracket \<Rightarrow> walk_state \<Rightarrow> walk_state" where
  "walk_step b s =
     (let upper_bound = up_to b;
          span = span_of (remaining s) upper_bound (lower_bound s);
          s' = (if span > 0
                then s\<lparr>total_tax := total_tax s + span * (rate b / 100),
                       remaining := remaining s - span,
                       marginal_rate := rate b\<rparr>
                else s)
      in s'\<lparr>lower_bound := upper_bound\<rparr>)"

text \<open>The loop: after each pass, \<^verbatim>\<open>if remaining <= 0: break\<close>.\<close>

fun walk :: "bound Bracket list \<Rightarrow> walk_state \<Rightarrow> walk_state" where
  "walk [] s = s"
| "walk (b # bs) s =
     (let s' = walk_step b s
      in if remaining s' \<le> 0 then s' else walk bs s')"

text \<open>
  The sorted copy: \<^verbatim>\<open>sorted([...], key=lambda b: b.up_to)\<close>. Python's sort is stable,
  as is the insertion sort \<open>sort_key\<close>.
\<close>

definition cleaned_of :: "real option Bracket list \<Rightarrow> bound Bracket list" where
  "cleaned_of brackets = sort_key up_to (map clean brackets)"

text \<open>
  \<^verbatim>\<open>if cleaned[-1].up_to != float("inf"):
      cleaned.append(Bracket(float("inf"), cleaned[-1].rate))\<close>
  where \<^verbatim>\<open>cleaned[-1]\<close> raises IndexError on an empty list.
\<close>

definition with_terminal :: "bound Bracket list \<Rightarrow> py_error + bound Bracket list" where
  "with_terminal cleaned =
     (if cleaned = [] then Inl IndexError
      else if up_to (last cleaned) \<noteq> PosInf
           then Inr (cleaned @ [\<lparr>up_to = PosInf, rate = rate (last cleaned)\<rparr>])
           else Inr cleaned)"

text \<open>
  The function up to its \<^verbatim>\<open>return\<close>: the final values of the loop's variables, started
  from \<^verbatim>\<open>remaining = max(0.0, taxable)\<close>, \<^verbatim>\<open>lower_bound = 0.0\<close>, \<^verbatim>\<open>total_tax = 0.0\<close>,
  \<^verbatim>\<open>marginal_rate = 0.0\<close>.
\<close>

definition progressive_walk :: "real \<Rightarrow> real option Bracket list \<Rightarrow> py_error + walk_state" where
  "progressive_walk taxable brackets =
     (case with_terminal (cleaned_of brackets) of
        Inl e \<Rightarrow> Inl e
      | Inr cleaned \<Rightarrow>
          Inr (walk cleaned \<lparr>remaining = max 0 taxable, lower_bound = Fin 0,
                             total_tax = 0, marginal_rate = 0\<rparr>))"

text \<open>\<^verbatim>\<open>return total_tax, marginal_rate\<close>.\<close>

definition compute_tax_progressive :: "real \<Rightarrow> real option Bracket list \<Rightarrow> py_error + real \<times> real" where
  "compute_tax_progressive taxable brackets =
     (case progressive_walk taxable brackets of
        Inl e \<Rightarrow> Inl e
      | Inr s \<Rightarrow> Inr (total_tax s, marginal_rate s))"


section \<open>Profiles and their persistence\<close>

text \<open>
  The Python values that \<^verbatim>\<open>json.load\<close> produces and that the fields of a profile hold:
  \<^verbatim>\<open>None\<close>, booleans, numbers (an \<^verbatim>\<open>int\<close> and the \<^verbatim>\<open>float\<close> equal to it are one value),
  strings, lists, and dictionaries with string keys in insertion order.
\<close>

datatype pyval =
  VNone
| VBool bool
| VNum real
| VStr string
| VList "pyval list"
| VDict "(string \<times> pyval) list"

text \<open>Sequencing of calls that may raise: the first exception is the result.\<close>

definition bind_err :: "py_error + 'a \<Rightarrow> ('a \<Rightarrow> py_error + 'b) \<Rightarrow> py_error + 'b" where
  "bind_err r k = (case r of Inl e \<Rightarrow> Inl e | Inr x \<Rightarrow> k x)"

fun map_err :: "('a \<Rightarrow> py_error + 'b) \<Rightarrow> 'a list \<Rightarrow> py_error + 'b list" where
  "map_err g [] = Inr []"
| "map_err g (x # xs) =
     bind_err (g x) (\<lambda>y. bind_err (map_err g xs) (\<lambda>ys. Inr (y # ys)))"

text \<open>
  \<^verbatim>\<open>d.get(key, default)\<close>: only a dictionary has the method \<^verbatim>\<open>get\<close>; on any other value
  the attribute lookup raises AttributeError.
\<close>

fun py_get :: "pyval \<Rightarrow> string \<Rightarrow> pyval \<Rightarrow> py_error + pyval" where
  "py_get (VDict kvs) key dflt =
     Inr (case map_of kvs key of None \<Rightarrow> dflt | Some v \<Rightarrow> v)"
| "py_get _ key dflt = Inl AttributeError"

text \<open>
  \<^verbatim>\<open>float(v)\<close>: a number converts to itself, \<^verbatim>\<open>True\<close> and \<^verbatim>\<open>False\<close> to 1.0 and 0.0;
  a string is parsed, and raises ValueError when it is not a numeric literal (the
  parser is Python's own, taken as the parameter \<open>float_of_str\<close>); \<^verbatim>\<open>None\<close>, a list
  and a dictionary raise TypeError.
\<close>

fun py_float :: "(string \<Rightarrow> real option) \<Rightarrow> pyval \<Rightarrow> py_error + real" where
  "py_float float_of_str (VNum r) = Inr r"
| "py_float float_of_str (VBool b) = Inr (if b then 1 else 0)"
| "py_float float_of_str (VStr s) =
     (case float_of_str s of None \<Rightarrow> Inl ValueError | Some r \<Rightarrow> Inr r)"
| "py_float float_of_str VNone = Inl TypeError"
| "py_float float_of_str (VList xs) = Inl TypeError"
| "py_float float_of_str (VDict kvs) = Inl TypeError"

text \<open>
  \<^verbatim>\<open>for b in v\<close>: a list yields its elements, a dictionary its keys, a string its
  characters as one-character strings; the other values are not iterable (TypeError).
\<close>

fun py_iter :: "pyval \<Rightarrow> py_error + pyval list" where
  "py_iter (VList xs) = Inr xs"
| "py_iter (VDict kvs) = Inr (map (\<lambda>(k, v). VStr k) kvs)"
| "py_iter (VStr s) = Inr (map (\<lambda>c. VStr [c]) s)"
| "py_iter VNone = Inl TypeError"
| "py_iter (VBool b) = Inl TypeError"
| "py_iter (VNum r) = Inl TypeError"

text \<open>
  \<^verbatim>\<open>@dataclass class TaxProfile: name: str; mode: str; flat_rate: float = 10.0;
  brackets: List[Bracket] = None\<close>.
  \<^verbatim>\<open>from_json\<close> stores \<open>name\<close>, \<open>mode\<close> and each \<open>up_to\<close> as it finds them, so these
  fields hold any Python value; \<open>flat_rate\<close> and \<open>rate\<close> go through \<^verbatim>\<open>float\<close>. The
  field \<open>brackets\<close> is \<^verbatim>\<open>None\<close> by default.
\<close>

record TaxProfile =
  name :: pyval
  mode :: pyval
  flat_rate :: real
  brackets :: "pyval Bracket list option"

text \<open>\<^verbatim>\<open>asdict(b)\<close> for a Bracket.\<close>

definition asdict :: "pyval Bracket \<Rightarrow> pyval" where
  "asdict b = VDict [(''up_to'', up_to b), (''rate'', VNum (rate b))]"

text \<open>
  \<^verbatim>\<open>def to_json(self):
      return {"name": self.name, "mode": self.mode, "flat_rate": self.flat_rate,
              "brackets": [asdict(b) for b in (self.brackets or [])]}\<close>
\<close>

definition to_json :: "TaxProfile \<Rightarrow> pyval" where
  "to_json self =
     VDict [(''name'', name self),
            (''mode'', mode self),
            (''flat_rate'', VNum (flat_rate self)),
            (''brackets'',
               VList (map asdict (case brackets self of None \<Rightarrow> [] | Some bs \<Rightarrow> bs)))]"

text \<open>\<^verbatim>\<open>Bracket(b.get("up_to"), float(b.get("rate", 0)))\<close>.\<close>

definition bracket_from_json :: "(string \<Rightarrow> real option) \<Rightarrow> pyval \<Rightarrow> py_error + pyval Bracket" where
  "bracket_from_json float_of_str b =
     bind_err (py_get b ''up_to'' VNone) (\<lambda>u.
     bind_err (py_get b ''rate'' (VNum 0)) (\<lambda>r0.
     bind_err (py_float float_of_str r0) (\<lambda>r.
     Inr \<lparr>up_to = u, rate = r\<rparr>)))"

text \<open>
  \<^verbatim>\<open>def from_json(d):
      return TaxProfile(
          name=d.get("name", "Unnamed"),
          mode=d.get("mode", "flat"),
          flat_rate=float(d.get("flat_rate", 10.0)),
          brackets=[Bracket(...) for b in d.get("brackets", [])])\<close>
  The arguments are evaluated from left to right.
\<close>

definition from_json :: "(string \<Rightarrow> real option) \<Rightarrow> pyval \<Rightarrow> py_error + TaxProfile" where
  "from_json float_of_str d =
     bind_err (py_get d ''name'' (VStr ''Unnamed'')) (\<lambda>n.
     bind_err (py_get d ''mode'' (VStr ''flat'')) (\<lambda>m.
     bind_err (py_get d ''flat_rate'' (VNum 10)) (\<lambda>fr0.
     bind_err (py_float float_of_str fr0) (\<lambda>fr.
     bind_err (py_get d ''brackets'' (VList [])) (\<lambda>bs0.
     bind_err (py_iter bs0) (\<lambda>items.
     bind_err (map_err (bracket_from_json float_of_str) items) (\<lambda>bs.
     Inr \<lparr>name = n, mode = m, flat_rate = fr, brackets = Some bs\<rparr>)))))))"

subsection \<open>Dictionaries keyed by Python values\<close>

text \<open>
  A \<^verbatim>\<open>dict\<close> keeps its entries in insertion order. Keys are compared with \<^verbatim>\<open>==\<close>,
  under which \<^verbatim>\<open>True == 1\<close> and \<^verbatim>\<open>False == 0\<close>; a list or a dictionary is not hashable
  and cannot be a key. Storing under a key that is present replaces the value and
  keeps the key and its position.
\<close>

fun key_norm :: "pyval \<Rightarrow> pyval" where
  "key_norm (VBool b) = VNum (if b then 1 else 0)"
| "key_norm v = v"

definition py_eq :: "pyval \<Rightarrow> pyval \<Rightarrow> bool" where
  "py_eq a b \<longleftrightarrow> key_norm a = key_norm b"

fun hashable :: "pyval \<Rightarrow> bool" where
  "hashable (VList xs) = False"
| "hashable (VDict kvs) = False"
| "hashable v = True"

fun dict_set :: "(pyval \<times> 'v) list \<Rightarrow> pyval \<Rightarrow> 'v \<Rightarrow> (pyval \<times> 'v) list" where
  "dict_set [] k v = [(k, v)]"
| "dict_set ((k', v') # d) k v =
     (if py_eq k' k then (k', v) # d else (k', v') # dict_set d k v)"

fun dict_lookup :: "(pyval \<times> 'v) list \<Rightarrow> pyval \<Rightarrow> 'v option" where
  "dict_lookup [] k = None"
| "dict_lookup ((k', v') # d) k = (if py_eq k' k then Some v' else dict_lookup d k)"

subsection \<open>Loading the store\<close>

text \<open>
  \<^verbatim>\<open>profiles = {name: TaxProfile.from_json(p) for name, p in raw.items()}\<close>, entry by
  entry into the dictionary built so far.
\<close>

fun read_profiles ::
  "(string \<Rightarrow> real option) \<Rightarrow> (string \<times> pyval) list \<Rightarrow> (pyval \<times> TaxProfile) list
     \<Rightarrow> py_error + (pyval \<times> TaxProfile) list" where
  "read_profiles float_of_str [] d = Inr d"
| "read_profiles float_of_str ((n, p) # items) d =
     bind_err (from_json float_of_str p) (\<lambda>v.
     read_profiles float_of_str items (dict_set d (VStr n) v))"

text \<open>
  \<^verbatim>\<open>{v.name: v for v in profiles.values()}\<close>: hashing a name that is a list or a
  dictionary raises TypeError.
\<close>

fun rekey :: "TaxProfile list \<Rightarrow> (pyval \<times> TaxProfile) list \<Rightarrow> py_error + (pyval \<times> TaxProfile) list" where
  "rekey [] d = Inr d"
| "rekey (v # vs) d =
     (if hashable (name v) then rekey vs (dict_set d (name v) v) else Inl TypeError)"

text \<open>The two profiles seeded on the first run, as \<^verbatim>\<open>default\<close> holds them.\<close>

definition default_profiles :: "(string \<times> pyval) list" where
  "default_profiles =
     [(''Flat 10%'',
       to_json \<lparr>name = VStr ''Flat 10%'', mode = VStr ''flat'', flat_rate = 10,
                brackets = Some []\<rparr>),
      (''Sample Progressive'',
       to_json \<lparr>name = VStr ''Sample Progressive'', mode = VStr ''progressive'',
                flat_rate = 10,
                brackets = Some [\<lparr>up_to = VNum 10000, rate = 5\<rparr>,
                                 \<lparr>up_to = VNum 30000, rate = 10\<rparr>,
                                 \<lparr>up_to = VNum 80000, rate = 20\<rparr>,
                                 \<lparr>up_to = VNone, rate = 30\<rparr>]\<rparr>)]"

text \<open>
  \<^verbatim>\<open>load_profiles\<close>. The profile file is the state: \<open>None\<close> when it does not exist,
  otherwise the value \<^verbatim>\<open>json.load\<close> reads from it (what \<^verbatim>\<open>json.dump\<close> wrote). The
  result is the returned dictionary, or the exception, and the file afterwards.
  \<^verbatim>\<open>raw.items()\<close> raises AttributeError when the file does not hold an object.
\<close>

definition load_profiles ::
  "(string \<Rightarrow> real option) \<Rightarrow> pyval option
     \<Rightarrow> (py_error + (pyval \<times> TaxProfile) list) \<times> pyval option" where
  "load_profiles float_of_str file =
     (case file of
        None \<Rightarrow>
          (read_profiles float_of_str default_profiles [], Some (VDict default_profiles))
      | Some raw \<Rightarrow>
          (case raw of
             VDict items \<Rightarrow>
               (bind_err (read_profiles float_of_str items []) (\<lambda>profiles.
                rekey (map snd profiles) []), file)
           | _ \<Rightarrow> (Inl AttributeError, file)))"

section \<open>The progressive calculator on the heap\<close>

text \<open>
  Python passes the bracket list by reference, so whether the call changes its argument
  is a question about objects. Here the heap is the list of all objects, an address is
  an index into it, and a new object is put at the end. A Bracket object holds
  \<open>up_to\<close> as \<^verbatim>\<open>None\<close> or a float (a finite real or \<^verbatim>\<open>float("inf")\<close>); a list object
  holds the addresses of its elements.
\<close>

type_synonym addr = nat

datatype obj = OBracket "bound option Bracket" | OList "addr list"

type_synonym heap = "obj list"

definition alloc :: "obj \<Rightarrow> heap \<Rightarrow> addr \<times> heap" where
  "alloc x h = (length h, h @ [x])"

text \<open>
  Reading \<^verbatim>\<open>b.up_to\<close> and \<^verbatim>\<open>b.rate\<close>: a list has no such attributes. (An address outside
  the heap cannot arise in Python; the model answers it like an object of the wrong
  kind.)
\<close>

definition bracket_at :: "heap \<Rightarrow> addr \<Rightarrow> py_error + bound option Bracket" where
  "bracket_at h a =
     (if a < length h
      then (case h ! a of OBracket b \<Rightarrow> Inr b | OList xs \<Rightarrow> Inl AttributeError)
      else Inl AttributeError)"

text \<open>Iterating over the argument: a Bracket is not iterable.\<close>

definition list_at :: "heap \<Rightarrow> addr \<Rightarrow> py_error + addr list" where
  "list_at h a =
     (if a < length h
      then (case h ! a of OList xs \<Rightarrow> Inr xs | OBracket b \<Rightarrow> Inl TypeError)
      else Inl TypeError)"

text \<open>
  Reading a bracket whose \<open>up_to\<close> is used as a float (as a sort key, in
  \<^verbatim>\<open>cleaned[-1].up_to != float("inf")\<close> and in \<^verbatim>\<open>upper_bound - lower_bound\<close>); with
  \<^verbatim>\<open>None\<close> there Python raises TypeError. The brackets of \<^verbatim>\<open>cleaned\<close> all hold floats.
\<close>

definition float_bracket_at :: "heap \<Rightarrow> addr \<Rightarrow> py_error + bound Bracket" where
  "float_bracket_at h a =
     (case bracket_at h a of
        Inl e \<Rightarrow> Inl e
      | Inr b \<Rightarrow>
          (case up_to b of
             None \<Rightarrow> Inl TypeError
           | Some u \<Rightarrow> Inr \<lparr>up_to = u, rate = rate b\<rparr>))"

text \<open>
  The list comprehension
  \<^verbatim>\<open>[Bracket(float("inf") if b.up_to is None else float(b.up_to), float(b.rate))
    for b in brackets]\<close>: one new Bracket object per element read.
\<close>

fun new_brackets :: "addr list \<Rightarrow> heap \<Rightarrow> (py_error + addr list) \<times> heap" where
  "new_brackets [] h = (Inr [], h)"
| "new_brackets (a # as) h =
     (case bracket_at h a of
        Inl e \<Rightarrow> (Inl e, h)
      | Inr b \<Rightarrow>
          (let (n, h1) = alloc (OBracket \<lparr>up_to = Some (case up_to b of None \<Rightarrow> PosInf | Some u \<Rightarrow> u),
                                         rate = rate b\<rparr>) h
           in case new_brackets as h1 of
                (Inl e, h2) \<Rightarrow> (Inl e, h2)
              | (Inr ns, h2) \<Rightarrow> (Inr (n # ns), h2)))"

text \<open>
  \<^verbatim>\<open>cleaned = sorted(..., key=lambda b: b.up_to)\<close>: a new list object holding the same
  addresses ordered by the keys read from the heap (a stable sort).
\<close>

definition sorted_copy :: "addr list \<Rightarrow> heap \<Rightarrow> (py_error + addr) \<times> heap" where
  "sorted_copy ns h =
     (case map_err (float_bracket_at h) ns of
        Inl e \<Rightarrow> (Inl e, h)
      | Inr vs \<Rightarrow>
          (let (cleaned, h1) = alloc (OList (map fst (sort_key (up_to \<circ> snd) (zip ns vs)))) h
           in (Inr cleaned, h1)))"

text \<open>
  \<^verbatim>\<open>if cleaned[-1].up_to != float("inf"):
      cleaned.append(Bracket(float("inf"), cleaned[-1].rate))\<close>:
  a new Bracket object, and the list object \<^verbatim>\<open>cleaned\<close> is updated in place.
\<close>

definition append_terminal :: "addr \<Rightarrow> heap \<Rightarrow> (py_error + unit) \<times> heap" where
  "append_terminal cleaned h =
     (case list_at h cleaned of
        Inl e \<Rightarrow> (Inl e, h)
      | Inr cs \<Rightarrow>
          if cs = [] then (Inl IndexError, h)
          else (case float_bracket_at h (last cs) of
                  Inl e \<Rightarrow> (Inl e, h)
                | Inr b \<Rightarrow>
                    if up_to b \<noteq> PosInf
                    then (let (n, h1) = alloc (OBracket \<lparr>up_to = Some PosInf, rate = rate b\<rparr>) h
                          in (Inr (), h1[cleaned := OList (cs @ [n])]))
                    else (Inr (), h)))"

text \<open>The loop reads the brackets of \<^verbatim>\<open>cleaned\<close>; its variables are locals.\<close>

definition walk_heap :: "real \<Rightarrow> addr \<Rightarrow> heap \<Rightarrow> py_error + real \<times> real" where
  "walk_heap taxable cleaned h =
     (case list_at h cleaned of
        Inl e \<Rightarrow> Inl e
      | Inr cs \<Rightarrow>
          (case map_err (float_bracket_at h) cs of
             Inl e \<Rightarrow> Inl e
           | Inr bs \<Rightarrow>
               (let s = walk bs \<lparr>remaining = max 0 taxable, lower_bound = Fin 0,
                                  total_tax = 0, marginal_rate = 0\<rparr>
                in Inr (total_tax s, marginal_rate s))))"

text \<open>
  \<^verbatim>\<open>compute_tax_progressive(taxable, brackets)\<close> with \<open>brackets_ref\<close> the address of the
  argument: the returned pair, or the exception, and the heap after the call.
\<close>

definition compute_tax_progressive_heap ::
  "real \<Rightarrow> addr \<Rightarrow> heap \<Rightarrow> (py_error + real \<times> real) \<times> heap" where
  "compute_tax_progressive_heap taxable brackets_ref h =
     (case list_at h brackets_ref of
        Inl e \<Rightarrow> (Inl e, h)
      | Inr as \<Rightarrow>
          (case new_brackets as h of
             (Inl e, h1) \<Rightarrow> (Inl e, h1)
           | (Inr ns, h1) \<Rightarrow>
               (let (tmp, h2) = alloc (OList ns) h1
                in case sorted_copy ns h2 of
                     (Inl e, h3) \<Rightarrow> (Inl e, h3)
                   | (Inr cleaned, h3) \<Rightarrow>
                       (case append_terminal cleaned h3 of
                          (Inl e, h4) \<Rightarrow> (Inl e, h4)
                        | (Inr u, h4) \<Rightarrow> (walk_heap taxable cleaned h4, h4)))))"

text \<open>A bracket of the calculator's input type as the object that holds it.\<close>

definition embed :: "real option Bracket \<Rightarrow> bound option Bracket" where
  "embed b = \<lparr>up_to = map_option Fin (up_to b), rate = rate b\<rparr>"

section \<open>Reference definitions for the properties\<close>










definition store_same_name :: "(string \<times> pyval) list" where
  "store_same_name =
     [(''first'', VDict [(''name'', VStr ''A''), (''flat_rate'', VNum 5)]),
      (''second'', VDict [(''name'', VStr ''B''), (''flat_rate'', VNum 6)]),
      (''third'', VDict [(''name'', VStr ''A''), (''flat_rate'', VNum 7)])]"


section \<open>Properties of the loop\<close>











lemma cleaned_of_eq_Nil: "cleaned_of bs = [] \<longleftrightarrow> bs = []"
  by (metis cleaned_of_def length_0_conv length_map length_sort)



section \<open>The flat calculator\<close>



section \<open>The progressive calculator\<close>

text \<open>
  C1. With an empty bracket list the progressive calculator does not return
  \<open>(0, 0)\<close>: the sorted copy is empty, and \<^verbatim>\<open>cleaned[-1]\<close> raises IndexError before any
  terminal bracket is appended, whatever the taxable income.
\<close>

theorem compute_tax_progressive_empty:
  "compute_tax_progressive taxable [] = Inl IndexError"
  by (simp add: compute_tax_progressive_def progressive_walk_def with_terminal_def
      cleaned_of_def)




section \<open>Walking through whole brackets\<close>
















lemma sorted_Cons_map: "sorted (map f xs) \<Longrightarrow> \<forall>x\<in>set xs. a \<le> f x \<Longrightarrow> sorted (a # map f xs)"
  by simp





section \<open>The terminal bracket\<close>







section \<open>Continuity at bracket boundaries\<close>



section \<open>Serialization of profiles\<close>

lemma bind_err_Inr [simp]: "bind_err (Inr x) k = k x"
  by (simp add: bind_err_def)

lemma bind_err_Inl [simp]: "bind_err (Inl e) k = Inl e"
  by (simp add: bind_err_def)




lemma bracket_roundtrip: "bracket_from_json f (asdict b) = Inr b"
  by (simp add: bracket_from_json_def asdict_def)

lemma brackets_roundtrip: "map_err (bracket_from_json f) (map asdict bs) = Inr bs"
  by (induction bs) (simp_all add: bracket_roundtrip)

text \<open>
  C6, as stated, fails: a profile built with the default \<open>brackets = None\<close> is written with
  an empty bracket list (\<^verbatim>\<open>self.brackets or []\<close>) and read back with \<open>brackets = []\<close>,
  which is not \<^verbatim>\<open>None\<close>.
\<close>

theorem roundtrip_counterexample:
  "from_json (\<lambda>s. None)
     (to_json \<lparr>name = VStr ''A'', mode = VStr ''flat'', flat_rate = 10, brackets = None\<rparr>)
     = Inr \<lparr>name = VStr ''A'', mode = VStr ''flat'', flat_rate = 10, brackets = Some []\<rparr>
   \<and> \<lparr>name = VStr ''A'', mode = VStr ''flat'', flat_rate = 10, brackets = Some []\<rparr>
     \<noteq> \<lparr>name = VStr ''A'', mode = VStr ''flat'', flat_rate = 10, brackets = None\<rparr>"
  by (simp add: from_json_def to_json_def)

text \<open>
  C6, amended. For every profile whose \<open>brackets\<close> field is a list (not \<^verbatim>\<open>None\<close>),
  \<^verbatim>\<open>from_json(to_json(p))\<close> returns a profile equal to \<open>p\<close>: the same name, mode and flat
  rate, and the same brackets in the same order.
\<close>

theorem roundtrip:
  assumes "brackets p \<noteq> None"
  shows "from_json float_of_str (to_json p) = Inr p"
proof -
  from assms obtain bs where bs: "brackets p = Some bs" by auto
  show ?thesis
    by (simp add: from_json_def to_json_def bs brackets_roundtrip)
qed


theorem roundtrip_witness:
  "from_json (\<lambda>s. None)
     (to_json \<lparr>name = VStr ''P'', mode = VStr ''progressive'', flat_rate = 10,
               brackets = Some [\<lparr>up_to = VNum 10000, rate = 5\<rparr>, \<lparr>up_to = VNone, rate = 30\<rparr>]\<rparr>)
     = Inr \<lparr>name = VStr ''P'', mode = VStr ''progressive'', flat_rate = 10,
               brackets = Some [\<lparr>up_to = VNum 10000, rate = 5\<rparr>, \<lparr>up_to = VNone, rate = 30\<rparr>]\<rparr>"
  using roundtrip [of "\<lparr>name = VStr ''P'', mode = VStr ''progressive'', flat_rate = 10,
               brackets = Some [\<lparr>up_to = VNum 10000, rate = 5\<rparr>, \<lparr>up_to = VNone, rate = 30\<rparr>]\<rparr>" "\<lambda>s. None"]
  by simp





section \<open>Loading the profile store\<close>

text \<open>
  Facts about dictionaries: a lookup after a store, the keys staying pairwise unequal,
  and what the two comprehensions of \<^verbatim>\<open>load_profiles\<close> build.
\<close>

lemma py_eq_refl [simp]: "py_eq a a"
  by (simp add: py_eq_def)

lemma py_eq_sym: "py_eq a b \<Longrightarrow> py_eq b a"
  by (simp add: py_eq_def)

lemma py_eq_trans: "py_eq a b \<Longrightarrow> py_eq b c \<Longrightarrow> py_eq a c"
  by (simp add: py_eq_def)

lemma py_eq_VStr: "py_eq k (VStr s) \<longleftrightarrow> k = VStr s"
  by (cases k) (simp_all add: py_eq_def)

lemma py_eq_VStr_left: "py_eq (VStr s) k \<longleftrightarrow> k = VStr s"
  by (cases k) (auto simp: py_eq_def)

lemma dict_lookup_dict_set:
  "dict_lookup (dict_set d k v) n = (if py_eq k n then Some v else dict_lookup d n)"
proof (induction d)
  case Nil
  then show ?case by simp
next
  case (Cons e d)
  obtain k' v' where e: "e = (k', v')" by (cases e)
  show ?case
    using Cons.IH by (auto simp: e dest: py_eq_trans py_eq_sym)
qed

lemma dict_set_fresh: "dict_lookup d k = None \<Longrightarrow> dict_set d k v = d @ [(k, v)]"
  by (induction d) (auto split: if_splits)

lemma dict_lookup_append:
  "dict_lookup (d @ e) n = (case dict_lookup d n of None \<Rightarrow> dict_lookup e n | Some v \<Rightarrow> Some v)"
  by (induction d) auto

lemma entries_dict_set:
  "(a, b) \<in> set (dict_set d k v) \<Longrightarrow> (a, b) \<in> set d \<or> (py_eq a k \<and> b = v)"
  by (induction d) (auto split: if_splits)

lemma distinct_dict_set:
  "distinct (map (key_norm \<circ> fst) d) \<Longrightarrow> distinct (map (key_norm \<circ> fst) (dict_set d k v))"
proof (induction d)
  case Nil
  then show ?case by simp
next
  case (Cons e d)
  obtain k' v' where e: "e = (k', v')" by (cases e)
  show ?case
  proof (cases "py_eq k' k")
    case True
    with Cons.prems show ?thesis by (simp add: e)
  next
    case False
    have "key_norm k' \<notin> set (map (key_norm \<circ> fst) (dict_set d k v))"
    proof
      assume "key_norm k' \<in> set (map (key_norm \<circ> fst) (dict_set d k v))"
      then obtain a b where ab: "(a, b) \<in> set (dict_set d k v)" "key_norm a = key_norm k'"
        by auto
      from entries_dict_set [OF ab(1)] show False
      proof
        assume "(a, b) \<in> set d"
        then have "key_norm k' \<in> set (map (key_norm \<circ> fst) d)"
          using ab(2) by force
        with Cons.prems show False by (simp add: e)
      next
        assume "py_eq a k \<and> b = v"
        with ab(2) False show False by (simp add: py_eq_def)
      qed
    qed
    with Cons show ?thesis using False by (simp add: e)
  qed
qed


lemma rekey_distinct:
  "rekey ps d = Inr m \<Longrightarrow> distinct (map (key_norm \<circ> fst) d) \<Longrightarrow> distinct (map (key_norm \<circ> fst) m)"
proof (induction ps arbitrary: d)
  case Nil
  then show ?case by simp
next
  case (Cons p ps)
  from Cons.prems(1) have r: "rekey ps (dict_set d (name p) p) = Inr m"
    by (auto split: if_splits)
  show ?case by (rule Cons.IH [OF r distinct_dict_set [OF Cons.prems(2)]])
qed

lemma rekey_lookup:
  "rekey ps d = Inr m \<Longrightarrow>
   dict_lookup m n = (case filter (\<lambda>q. py_eq (name q) n) ps of
                        [] \<Rightarrow> dict_lookup d n | q # qs \<Rightarrow> Some (last (q # qs)))"
proof (induction ps arbitrary: d)
  case Nil
  then show ?case by simp
next
  case (Cons p ps)
  from Cons.prems(1) have r: "rekey ps (dict_set d (name p) p) = Inr m"
    by (auto split: if_splits)
  show ?case
    unfolding Cons.IH [OF r] dict_lookup_dict_set
    by (auto split: list.splits)
qed

lemma rekey_total: "\<forall>p\<in>set ps. hashable (name p) \<Longrightarrow> \<exists>m. rekey ps d = Inr m"
  by (induction ps arbitrary: d) simp_all

lemma one_entry:
  "distinct (map (key_norm \<circ> fst) m) \<Longrightarrow> dict_lookup m n = Some v \<Longrightarrow>
   length (filter (\<lambda>(k, v). py_eq k n) m) = 1"
proof (induction m)
  case Nil
  then show ?case by simp
next
  case (Cons e m)
  obtain k' v' where e: "e = (k', v')" by (cases e)
  show ?case
  proof (cases "py_eq k' n")
    case True
    have "filter (\<lambda>(k, v). py_eq k n) m = []"
      using Cons.prems(1) True by (auto simp: e filter_empty_conv py_eq_def image_iff)
    with True show ?thesis by (simp add: e)
  next
    case False
    with Cons show ?thesis by (simp add: e)
  qed
qed

lemma length_map_err: "map_err g xs = Inr ys \<Longrightarrow> length ys = length xs"
proof (induction xs arbitrary: ys)
  case Nil
  then show ?case by simp
next
  case (Cons x xs)
  then show ?case
    by (cases "g x"; cases "map_err g xs") auto
qed

lemma read_profiles_distinct:
  assumes "distinct (map fst items)" "\<forall>n\<in>set (map fst items). dict_lookup d (VStr n) = None"
    "map_err (\<lambda>(n, p). from_json f p) items = Inr ps"
  shows "read_profiles f items d = Inr (d @ zip (map (VStr \<circ> fst) items) ps)"
  using assms
proof (induction items arbitrary: d ps)
  case Nil
  then show ?case by simp
next
  case (Cons e items)
  obtain n p where e: "e = (n, p)" by (cases e)
  from Cons.prems(3) obtain v vs where v: "from_json f p = Inr v"
    and vs: "map_err (\<lambda>(n, p). from_json f p) items = Inr vs" and ps: "ps = v # vs"
    by (cases "from_json f p"; cases "map_err (\<lambda>(n, p). from_json f p) items") (auto simp: e)
  have fresh: "dict_set d (VStr n) v = d @ [(VStr n, v)]"
    using Cons.prems(2) by (simp add: e dict_set_fresh)
  have "read_profiles f items (d @ [(VStr n, v)]) =
          Inr ((d @ [(VStr n, v)]) @ zip (map (VStr \<circ> fst) items) vs)"
  proof (rule Cons.IH [OF _ _ vs])
    show "distinct (map fst items)" using Cons.prems(1) by simp
    show "\<forall>n'\<in>set (map fst items). dict_lookup (d @ [(VStr n, v)]) (VStr n') = None"
      using Cons.prems(1,2) by (auto simp: e dict_lookup_append py_eq_VStr)
  qed
  then show ?case by (simp add: e v fresh ps comp_def)
qed

lemma load_profiles_store:
  assumes dist: "distinct (map fst items)"
    and ps: "map_err (\<lambda>(n, p). from_json f p) items = Inr ps"
  shows "load_profiles f (Some (VDict items)) = (rekey ps [], Some (VDict items))"
proof -
  have "read_profiles f items [] = Inr ([] @ zip (map (VStr \<circ> fst) items) ps)"
    by (rule read_profiles_distinct [OF dist _ ps]) simp
  moreover have "map snd (zip (map (VStr \<circ> fst) items) ps) = ps"
    using length_map_err [OF ps] by (simp add: map_snd_zip)
  ultimately show ?thesis by (simp add: load_profiles_def)
qed



text \<open>
  C10. When the records of the store deserialize to the profiles \<open>ps\<close>, in the file's
  order, the returned mapping has exactly one entry for the name of any of them, and
  that entry holds the last profile of \<open>ps\<close> with that name: earlier records of the
  same name are dropped.
\<close>

theorem load_profiles_last_wins:
  assumes dist: "distinct (map fst items)"
    and ps: "map_err (\<lambda>(n, p). from_json f p) items = Inr ps"
    and hash: "\<forall>p\<in>set ps. hashable (name p)"
    and p: "p \<in> set ps"
  shows "\<exists>m. load_profiles f (Some (VDict items)) = (Inr m, Some (VDict items))
           \<and> length (filter (\<lambda>(k, v). py_eq k (name p)) m) = 1
           \<and> dict_lookup m (name p) = Some (last (filter (\<lambda>q. py_eq (name q) (name p)) ps))"
proof -
  obtain m where m: "rekey ps [] = Inr m"
    using rekey_total [OF hash] by blast
  have "p \<in> set (filter (\<lambda>q. py_eq (name q) (name p)) ps)"
    using p by simp
  then obtain q qs where qs: "filter (\<lambda>q. py_eq (name q) (name p)) ps = q # qs"
    by (cases "filter (\<lambda>q. py_eq (name q) (name p)) ps") auto
  have look: "dict_lookup m (name p) = Some (last (filter (\<lambda>q. py_eq (name q) (name p)) ps))"
    using rekey_lookup [OF m, of "name p"] by (simp add: qs)
  have "distinct (map (key_norm \<circ> fst) m)"
    by (rule rekey_distinct [OF m]) simp
  then have "length (filter (\<lambda>(k, v). py_eq k (name p)) m) = 1"
    using look by (rule one_entry)
  with look show ?thesis
    using load_profiles_store [OF dist ps] m by simp
qed

theorem load_profiles_last_wins_witness:
  "distinct (map fst store_same_name)
   \<and> load_profiles (\<lambda>s. None) (Some (VDict store_same_name))
       = (Inr [(VStr ''A'',
                \<lparr>name = VStr ''A'', mode = VStr ''flat'', flat_rate = 7, brackets = Some []\<rparr>),
               (VStr ''B'',
                \<lparr>name = VStr ''B'', mode = VStr ''flat'', flat_rate = 6, brackets = Some []\<rparr>)],
          Some (VDict store_same_name))"
  using load_profiles_last_wins [of store_same_name "\<lambda>s. None"
      "[\<lparr>name = VStr ''A'', mode = VStr ''flat'', flat_rate = 5, brackets = Some []\<rparr>,
        \<lparr>name = VStr ''B'', mode = VStr ''flat'', flat_rate = 6, brackets = Some []\<rparr>,
        \<lparr>name = VStr ''A'', mode = VStr ''flat'', flat_rate = 7, brackets = Some []\<rparr>]"
      "\<lparr>name = VStr ''A'', mode = VStr ''flat'', flat_rate = 5, brackets = Some []\<rparr>"]
  by (simp add: store_same_name_def load_profiles_def from_json_def py_eq_def)

section \<open>The argument of the progressive calculator\<close>

text \<open>Each step of the call only adds objects, or updates the list it has just built.\<close>

lemma new_brackets_extends: "\<exists>ext. snd (new_brackets as h) = h @ ext"
proof (induction as arbitrary: h)
  case Nil
  then show ?case by simp
next
  case (Cons a as)
  show ?case
  proof (cases "bracket_at h a")
    case (Inl e)
    then show ?thesis by simp
  next
    case (Inr b)
    let ?h1 = "h @ [OBracket \<lparr>up_to = Some (case up_to b of None \<Rightarrow> PosInf | Some u \<Rightarrow> u), rate = rate b\<rparr>]"
    obtain ext where "snd (new_brackets as ?h1) = ?h1 @ ext"
      using Cons.IH by blast
    then show ?thesis
      using Inr by (cases "new_brackets as ?h1") (auto simp: alloc_def split: sum.splits)
  qed
qed

lemma sorted_copy_extends:
  "sorted_copy ns h = (r, h') \<Longrightarrow>
     (\<exists>ext. h' = h @ ext) \<and> (\<forall>c. r = Inr c \<longrightarrow> c = length h)"
  by (auto simp: sorted_copy_def alloc_def split: sum.splits)

lemma update_keeps_prefix: "length h0 \<le> c \<Longrightarrow> \<exists>ext. (h0 @ xs)[c := y] = h0 @ ext"
  by (simp add: list_update_append)

lemma append_terminal_extends:
  assumes le: "length h0 \<le> cleaned"
  shows "\<exists>ext. snd (append_terminal cleaned (h0 @ ext0)) = h0 @ ext"
proof -
  have upd: "\<exists>ext. ((h0 @ ext0) @ [x])[cleaned := y] = h0 @ ext" for x y
    using update_keeps_prefix [OF le, of "ext0 @ [x]" y] by simp
  show ?thesis
    unfolding append_terminal_def alloc_def
    using upd by (auto split: sum.splits)
qed

text \<open>
  C9. Whatever the taxable income, the argument and the heap, the heap after the call
  begins with the heap before it: every object that existed before the call, the
  argument list and each Bracket in it among them, is the same after it, also when
  the call raises. The cleaned brackets, the sorted list and the terminal bracket are
  new objects beyond the old heap.
\<close>

theorem input_unchanged:
  "take (length h) (snd (compute_tax_progressive_heap taxable brackets_ref h)) = h"
proof -
  have "\<exists>ext. snd (compute_tax_progressive_heap taxable brackets_ref h) = h @ ext"
  proof (cases "list_at h brackets_ref")
    case (Inl e)
    then show ?thesis by (simp add: compute_tax_progressive_heap_def)
  next
    case (Inr as)
    obtain r1 h1 where nb: "new_brackets as h = (r1, h1)" by (cases "new_brackets as h")
    obtain e1 where h1: "h1 = h @ e1"
      using new_brackets_extends [of as h] nb by auto
    show ?thesis
    proof (cases r1)
      case (Inl e)
      then show ?thesis using Inr nb h1 by (simp add: compute_tax_progressive_heap_def)
    next
      case ns: (Inr ns)
      let ?h2 = "h1 @ [OList ns]"
      obtain r3 h3 where sc: "sorted_copy ns ?h2 = (r3, h3)" by (cases "sorted_copy ns ?h2")
      from sorted_copy_extends [OF sc] obtain e3 where h3: "h3 = ?h2 @ e3"
        and c: "\<forall>c. r3 = Inr c \<longrightarrow> c = length ?h2" by blast
      show ?thesis
      proof (cases r3)
        case (Inl e)
        then show ?thesis
          using Inr nb ns sc h1 h3
          by (simp add: compute_tax_progressive_heap_def alloc_def)
      next
        case cl: (Inr cleaned)
        have le: "length h \<le> cleaned" using c cl h1 by simp
        have h3': "h3 = h @ (e1 @ [OList ns] @ e3)" using h3 h1 by simp
        obtain e4 where h4: "snd (append_terminal cleaned h3) = h @ e4"
          using append_terminal_extends [OF le] unfolding h3' by blast
        show ?thesis
          using Inr nb ns sc cl h4
          by (cases "append_terminal cleaned h3")
            (auto simp: compute_tax_progressive_heap_def alloc_def split: sum.splits)
      qed
    qed
  qed
  then show ?thesis by auto
qed

text \<open>
  The heap model computes what the calculator of the previous sections computes, when
  the argument is a list of Bracket objects holding the values \<open>rows\<close>.
\<close>

lemma map_err_all2: "list_all2 (\<lambda>x y. g x = Inr y) xs ys \<Longrightarrow> map_err g xs = Inr ys"
  by (induction xs ys rule: list_all2_induct) simp_all

lemma map_err_all2D: "map_err g xs = Inr ys \<Longrightarrow> list_all2 (\<lambda>x y. g x = Inr y) xs ys"
proof (induction xs arbitrary: ys)
  case Nil
  then show ?case by simp
next
  case (Cons x xs)
  then show ?case
    by (cases "g x"; cases "map_err g xs") auto
qed

lemma bracket_at_append: "bracket_at h a = Inr b \<Longrightarrow> bracket_at (h @ ext) a = Inr b"
  by (auto simp: bracket_at_def nth_append split: if_splits)

lemma float_bracket_at_append:
  "float_bracket_at h a = Inr b \<Longrightarrow> float_bracket_at (h @ ext) a = Inr b"
  by (auto simp: float_bracket_at_def bracket_at_append split: sum.splits option.splits)

lemma float_bracket_at_update:
  "float_bracket_at h a = Inr b \<Longrightarrow> a \<noteq> c \<Longrightarrow> float_bracket_at (h[c := x]) a = Inr b"
  by (auto simp: float_bracket_at_def bracket_at_def split: sum.splits option.splits if_splits)

lemma float_bracket_at_new:
  "float_bracket_at (h @ [OBracket \<lparr>up_to = Some u, rate = r\<rparr>]) (length h) = Inr \<lparr>up_to = u, rate = r\<rparr>"
  by (simp add: float_bracket_at_def bracket_at_def)

lemma clean_embed: "(case up_to (embed b) of None \<Rightarrow> PosInf | Some u \<Rightarrow> u) = up_to (clean b)"
  by (simp add: embed_def clean_def split: option.splits)

lemma rate_embed: "rate (embed b) = rate b"
  by (simp add: embed_def)

lemma new_brackets_values:
  assumes "list_all2 (\<lambda>a b. bracket_at h a = Inr (embed b)) as rows"
  shows "\<exists>ns h1. new_brackets as h = (Inr ns, h1) \<and> (\<exists>ext. h1 = h @ ext)
           \<and> list_all2 (\<lambda>n b. float_bracket_at h1 n = Inr (clean b)) ns rows
           \<and> (\<forall>n\<in>set ns. n < length h1)"
  using assms
proof (induction as arbitrary: h rows)
  case Nil
  then show ?case by simp
next
  case (Cons a as h rows0)
  from Cons.prems obtain b rows where rows0: "rows0 = b # rows"
    and hd: "bracket_at h a = Inr (embed b)"
    and tl: "list_all2 (\<lambda>a b. bracket_at h a = Inr (embed b)) as rows"
    by (cases rows0) auto
  let ?o = "OBracket \<lparr>up_to = Some (up_to (clean b)), rate = rate b\<rparr>"
  let ?h1 = "h @ [?o]"
  have "list_all2 (\<lambda>a b. bracket_at ?h1 a = Inr (embed b)) as rows"
    using tl by (auto elim!: list_all2_mono simp: bracket_at_append)
  from Cons.IH [OF this] obtain ns h2 ext where
    nb: "new_brackets as ?h1 = (Inr ns, h2)" and h2: "h2 = ?h1 @ ext"
    and vals: "list_all2 (\<lambda>n b. float_bracket_at h2 n = Inr (clean b)) ns rows"
    and lt: "\<forall>n\<in>set ns. n < length h2"
    by blast
  have first: "float_bracket_at h2 (length h) = Inr (clean b)"
    unfolding h2 by (rule float_bracket_at_append) (simp add: float_bracket_at_new clean_def)
  have "new_brackets (a # as) h = (Inr (length h # ns), h2)"
    using hd nb by (simp add: alloc_def clean_embed rate_embed)
  moreover have "\<exists>ext. h2 = h @ ext" using h2 by simp
  moreover have "list_all2 (\<lambda>n b. float_bracket_at h2 n = Inr (clean b)) (length h # ns) (b # rows)"
    using first vals by simp
  moreover have "\<forall>n\<in>set (length h # ns). n < length h2"
    using lt h2 by simp
  ultimately show ?case unfolding rows0 by blast
qed

lemma insort_key_comp:
  "map g (insort_key (\<lambda>x. f (g x)) x xs) = insort_key f (g x) (map g xs)"
  by (induction xs) simp_all

lemma sort_key_comp: "map g (sort_key (\<lambda>x. f (g x)) xs) = sort_key f (map g xs)"
  by (induction xs) (simp_all add: insort_key_comp)

lemma zip_all2: "list_all2 P xs ys \<Longrightarrow> \<forall>z\<in>set (zip xs ys). P (fst z) (snd z)"
  by (auto simp: list_all2_iff)

lemma all2_fst_snd: "\<forall>z\<in>set zs. P (fst z) (snd z) \<Longrightarrow> list_all2 P (map fst zs) (map snd zs)"
  by (induction zs) simp_all


lemma list_at_new: "list_at (h @ [OList xs]) (length h) = Inr xs"
  by (simp add: list_at_def)

lemma list_at_update: "c < length h \<Longrightarrow> list_at (h[c := OList xs]) c = Inr xs"
  by (simp add: list_at_def)

lemma heap_refines:
  assumes lst: "list_at h brackets_ref = Inr as"
    and vals: "list_all2 (\<lambda>a b. bracket_at h a = Inr (embed b)) as rows"
  shows "fst (compute_tax_progressive_heap taxable brackets_ref h)
           = compute_tax_progressive taxable rows"
proof -
  obtain ns h1 where nb: "new_brackets as h = (Inr ns, h1)"
    and v1: "list_all2 (\<lambda>n b. float_bracket_at h1 n = Inr (clean b)) ns rows"
    and lt1: "\<forall>n\<in>set ns. n < length h1"
    using new_brackets_values [OF vals] by blast
  define h2 where "h2 = h1 @ [OList ns]"
  define zs where "zs = sort_key (\<lambda>z. up_to (snd z)) (zip ns (map clean rows))"
  define cs where "cs = map fst zs"
  define cleaned where "cleaned = length h2"
  define h3 where "h3 = h2 @ [OList cs]"
  define s0 where "s0 = \<lparr>remaining = max 0 taxable, lower_bound = Fin 0,
                          total_tax = 0, marginal_rate = 0\<rparr>"
  have v2: "list_all2 (\<lambda>n v. float_bracket_at h2 n = Inr v) ns (map clean rows)"
    unfolding h2_def using v1
    by (auto simp: list_all2_map2 elim!: list_all2_mono intro: float_bracket_at_append)
  have read2: "map_err (float_bracket_at h2) ns = Inr (map clean rows)"
    by (rule map_err_all2 [OF v2])
  have len: "length ns = length (map clean rows)"
    using v2 by (rule list_all2_lengthD)
  have snd_zs: "map snd zs = cleaned_of rows"
    unfolding zs_def using len by (simp add: sort_key_comp [of snd up_to] cleaned_of_def)
  have sc: "sorted_copy ns h2 = (Inr cleaned, h3)"
    by (simp add: sorted_copy_def read2 alloc_def comp_def cleaned_def h3_def cs_def zs_def)
  have zs_vals: "\<forall>z\<in>set zs. float_bracket_at h2 (fst z) = Inr (snd z) \<and> fst z < length h1"
    unfolding zs_def using zip_all2 [OF v2] lt1 by (auto dest: set_zip_leftD)
  have v3: "list_all2 (\<lambda>n v. float_bracket_at h3 n = Inr v) cs (cleaned_of rows)"
    unfolding snd_zs [symmetric] cs_def
  proof (rule all2_fst_snd, rule ballI)
    fix z assume "z \<in> set zs"
    then have "float_bracket_at h2 (fst z) = Inr (snd z)"
      using zs_vals by auto
    then show "float_bracket_at h3 (fst z) = Inr (snd z)"
      unfolding h3_def by (rule float_bracket_at_append)
  qed
  have l3: "list_at h3 cleaned = Inr cs"
    unfolding h3_def cleaned_def by (rule list_at_new)
  have run: "compute_tax_progressive_heap taxable brackets_ref h
      = (case append_terminal cleaned h3 of
           (Inl e, h4) \<Rightarrow> (Inl e, h4)
         | (Inr u, h4) \<Rightarrow> (walk_heap taxable cleaned h4, h4))"
    unfolding compute_tax_progressive_heap_def
    by (simp add: lst nb alloc_def sc flip: h2_def)
  show ?thesis
  proof (cases "rows = []")
    case True
    then have "cs = []" using len by (simp add: cs_def zs_def)
    then have "append_terminal cleaned h3 = (Inl IndexError, h3)"
      using l3 by (simp add: append_terminal_def)
    then show ?thesis
      using True
      by (simp add: run compute_tax_progressive_def progressive_walk_def with_terminal_def
          cleaned_of_def)
  next
    case False
    then have cne: "cleaned_of rows \<noteq> []" by (simp add: cleaned_of_eq_Nil)
    then have csne: "cs \<noteq> []" using snd_zs unfolding cs_def by (metis map_is_Nil_conv)
    have lastv: "float_bracket_at h3 (last cs) = Inr (last (cleaned_of rows))"
      using v3 csne cne by (simp add: list_all2_conv_all_nth last_conv_nth)
    show ?thesis
    proof (cases "up_to (last (cleaned_of rows)) \<noteq> PosInf")
      case False
      then have at: "append_terminal cleaned h3 = (Inr (), h3)"
        using l3 csne lastv by (simp add: append_terminal_def)
      have "walk_heap taxable cleaned h3 =
              (let s = walk (cleaned_of rows) s0 in Inr (total_tax s, marginal_rate s))"
        using l3 map_err_all2 [OF v3] by (simp add: walk_heap_def s0_def)
      then show ?thesis
        using False cne
        by (simp add: run at compute_tax_progressive_def progressive_walk_def with_terminal_def
            Let_def s0_def)
    next
      case True
      define t where "t = \<lparr>up_to = PosInf, rate = rate (last (cleaned_of rows))\<rparr>"
      define n where "n = length h3"
      define h4 where "h4 = (h3 @ [OBracket \<lparr>up_to = Some PosInf,
                                        rate = rate (last (cleaned_of rows))\<rparr>])
                   [cleaned := OList (cs @ [n])]"
      have at: "append_terminal cleaned h3 = (Inr (), h4)"
        using l3 csne lastv True by (simp add: append_terminal_def alloc_def h4_def n_def)
      have cl_lt: "cleaned < length h3" by (simp add: h3_def cleaned_def)
      have l4: "list_at h4 cleaned = Inr (cs @ [n])"
        unfolding h4_def by (rule list_at_update) (use cl_lt in simp)
      have old: "list_all2 (\<lambda>n v. float_bracket_at h4 n = Inr v) cs (cleaned_of rows)"
        unfolding snd_zs [symmetric] cs_def
      proof (rule all2_fst_snd, rule ballI)
        fix z assume z: "z \<in> set zs"
        then have a: "float_bracket_at h2 (fst z) = Inr (snd z)" and b: "fst z < length h1"
          using zs_vals by auto
        have "float_bracket_at h3 (fst z) = Inr (snd z)"
          unfolding h3_def using a by (rule float_bracket_at_append)
        then have "float_bracket_at (h3 @ [OBracket \<lparr>up_to = Some PosInf,
                                        rate = rate (last (cleaned_of rows))\<rparr>]) (fst z) = Inr (snd z)"
          by (rule float_bracket_at_append)
        moreover have "fst z \<noteq> cleaned" using b by (simp add: cleaned_def h2_def)
        ultimately show "float_bracket_at h4 (fst z) = Inr (snd z)"
          unfolding h4_def by (rule float_bracket_at_update)
      qed
      have new: "float_bracket_at h4 n = Inr t"
        unfolding h4_def t_def n_def
        by (rule float_bracket_at_update) (use cl_lt in \<open>simp_all add: float_bracket_at_new\<close>)
      have "list_all2 (\<lambda>n v. float_bracket_at h4 n = Inr v) (cs @ [n]) (cleaned_of rows @ [t])"
        using old new by (simp add: list_all2_appendI)
      then have "map_err (float_bracket_at h4) (cs @ [n]) = Inr (cleaned_of rows @ [t])"
        by (rule map_err_all2)
      then have "walk_heap taxable cleaned h4 =
              (let s = walk (cleaned_of rows @ [t]) s0 in Inr (total_tax s, marginal_rate s))"
        using l4 by (simp add: walk_heap_def s0_def)
      then show ?thesis
        using True cne
        by (simp add: run at compute_tax_progressive_def progressive_walk_def with_terminal_def
            Let_def s0_def t_def)
    qed
  qed
qed

end
